theory Spec2Isabelle
  imports Complex_Main "HOL-Library.Word"
begin

section \<open>Data model of server.h\<close>

text \<open>
  The fixed-width integer types of the source are words: \<open>s16\<close> and \<open>u16\<close> are
  \<open>16 word\<close>, \<open>u8\<close> is \<open>8 word\<close>, \<open>u32\<close> and \<open>int\<close> are \<open>32 word\<close> (a signed
  type is the word read by \<open>sint\<close>; the queues only test these for equality). A \<open>float\<close> or \<open>double\<close> is read as a real number: the queues only
  compare priorities and deadlines with \<open><\<close> and \<open>>\<close>, which on finite floating point
  values is the order of the reals (a NaN is outside this reading). The one place where
  the source computes with them, the narrowing of \<open>m_timestamp + timeout\<close> to \<open>float\<close>,
  is kept as a parameter \<open>to_float\<close>.

  A \<open>core::list\<close> of pointers owning its elements is a HOL list of the elements, the first
  element being \<open>begin()\<close>. The mutex of \<open>BlockEmergeQueue\<close> has no counterpart in this
  sequential reading: every method is one atomic function on the queue.
\<close>

record v3s16 =
  X :: "16 word"
  Y :: "16 word"
  Z :: "16 word"

subsection \<open>BlockEmergeQueue\<close>

record QueuedBlockEmerge =
  pos :: v3s16
  priority :: real

type_synonym BlockEmergeQueue = "QueuedBlockEmerge list"

text \<open>
  First loop of \<open>addBlock\<close>: walk to the first entry at \<open>p\<close>. \<open>None\<close> is the early
  \<open>return\<close> (queued with a larger priority); otherwise the entry is erased and the loop
  left, and \<open>Some\<close> holds the queue the second half of the method goes on with.
\<close>

fun emerge_unqueue :: "v3s16 \<Rightarrow> real \<Rightarrow> BlockEmergeQueue \<Rightarrow> BlockEmergeQueue option" where
  "emerge_unqueue p pr [] = Some []"
| "emerge_unqueue p pr (q # qs) =
     (if pos q = p
      then (if priority q > pr then None else Some qs)
      else map_option ((#) q) (emerge_unqueue p pr qs))"

text \<open>
  Second loop of \<open>addBlock\<close>: \<open>insert_before\<close> the first entry of smaller priority and
  return. When the loop runs to \<open>end()\<close> nothing is inserted.
\<close>

fun emerge_insert :: "QueuedBlockEmerge \<Rightarrow> BlockEmergeQueue \<Rightarrow> BlockEmergeQueue" where
  "emerge_insert newq [] = []"
| "emerge_insert newq (q # qs) =
     (if priority q < priority newq then newq # q # qs else q # emerge_insert newq qs)"

definition BlockEmergeQueue_addBlock :: "v3s16 \<Rightarrow> real \<Rightarrow> BlockEmergeQueue \<Rightarrow> BlockEmergeQueue" where
  "BlockEmergeQueue_addBlock p pr m_queue =
     (case emerge_unqueue p pr m_queue of
        None \<Rightarrow> m_queue
      | Some m \<Rightarrow>
          (let newq = \<lparr>pos = p, priority = pr\<rparr>
           in if m = [] then m @ [newq] else emerge_insert newq m))"

definition BlockEmergeQueue_pop :: "BlockEmergeQueue \<Rightarrow> QueuedBlockEmerge option \<times> BlockEmergeQueue" where
  "BlockEmergeQueue_pop m_queue =
     (case m_queue of [] \<Rightarrow> (None, m_queue) | q # rest \<Rightarrow> (Some q, rest))"

definition BlockEmergeQueue_size :: "BlockEmergeQueue \<Rightarrow> 32 word" where
  "BlockEmergeQueue_size m_queue = of_nat (length m_queue)"

text \<open>Call sequences on a queue that starts empty, as the constructor leaves it.\<close>

datatype emerge_call = EAdd v3s16 real | EPop

fun emerge_apply :: "BlockEmergeQueue \<Rightarrow> emerge_call \<Rightarrow> BlockEmergeQueue" where
  "emerge_apply m (EAdd p pr) = BlockEmergeQueue_addBlock p pr m"
| "emerge_apply m EPop = snd (BlockEmergeQueue_pop m)"

definition emerge_run :: "emerge_call list \<Rightarrow> BlockEmergeQueue" where
  "emerge_run cs = foldl emerge_apply [] cs"

text \<open>The entries that \<open>n\<close> successive calls of \<open>pop\<close> return, up to the first \<open>NULL\<close>.\<close>

fun emerge_pops :: "nat \<Rightarrow> BlockEmergeQueue \<Rightarrow> QueuedBlockEmerge list" where
  "emerge_pops 0 m = []"
| "emerge_pops (Suc n) m =
     (case BlockEmergeQueue_pop m of
        (None, _) \<Rightarrow> []
      | (Some q, m') \<Rightarrow> q # emerge_pops n m')"

abbreviation emerge_pos :: "QueuedBlockEmerge \<Rightarrow> v3s16" where
  "emerge_pos \<equiv> pos"

abbreviation emerge_priority :: "QueuedBlockEmerge \<Rightarrow> real" where
  "emerge_priority \<equiv> priority"

definition P0 :: v3s16 where
  "P0 = \<lparr>X = 0, Y = 0, Z = 0\<rparr>"

definition P1 :: v3s16 where
  "P1 = \<lparr>X = 1, Y = 0, Z = 0\<rparr>"

definition P2 :: v3s16 where
  "P2 = \<lparr>X = 2, Y = 0, Z = 0\<rparr>"

subsection \<open>BlockSendQueue\<close>

record QueuedBlockSend =
  peer_id :: "32 word"
  pos :: v3s16
  priority :: real
  timeout_timestamp :: real

record BlockSendQueue =
  m_queue :: "QueuedBlockSend list"
  m_timestamp :: real

text \<open>
  The same two loops on the send queue, keyed by peer and position; the early
  \<open>return\<close> needs the queued entry to beat the request in priority and in deadline.
\<close>

fun send_unqueue :: "32 word \<Rightarrow> v3s16 \<Rightarrow> real \<Rightarrow> real \<Rightarrow> QueuedBlockSend list
    \<Rightarrow> QueuedBlockSend list option" where
  "send_unqueue pid p pr ts [] = Some []"
| "send_unqueue pid p pr ts (q # qs) =
     (if peer_id q = pid \<and> pos q = p
      then (if priority q > pr \<and> timeout_timestamp q > ts then None else Some qs)
      else map_option ((#) q) (send_unqueue pid p pr ts qs))"

fun send_insert :: "QueuedBlockSend \<Rightarrow> QueuedBlockSend list \<Rightarrow> QueuedBlockSend list" where
  "send_insert newq [] = []"
| "send_insert newq (q # qs) =
     (if priority q < priority newq then newq # q # qs else q # send_insert newq qs)"

definition BlockSendQueue_addBlock ::
    "(real \<Rightarrow> real) \<Rightarrow> 32 word \<Rightarrow> v3s16 \<Rightarrow> real \<Rightarrow> real \<Rightarrow> BlockSendQueue \<Rightarrow> BlockSendQueue" where
  "BlockSendQueue_addBlock to_float pid p pr timeout s =
     (let ts = to_float (m_timestamp s + timeout)
      in case send_unqueue pid p pr ts (m_queue s) of
           None \<Rightarrow> s
         | Some m \<Rightarrow>
             (let newq = \<lparr>peer_id = pid, pos = p, priority = pr, timeout_timestamp = ts\<rparr>
              in if m = [] then s\<lparr>m_queue := m @ [newq]\<rparr>
                 else s\<lparr>m_queue := send_insert newq m\<rparr>))"

definition BlockSendQueue_step :: "real \<Rightarrow> BlockSendQueue \<Rightarrow> BlockSendQueue" where
  "BlockSendQueue_step dtime s = s\<lparr>m_timestamp := m_timestamp s + dtime\<rparr>"

definition BlockSendQueue_size :: "BlockSendQueue \<Rightarrow> 32 word" where
  "BlockSendQueue_size s = of_nat (length (m_queue s))"

text \<open>
  Call sequences on a send queue. The constructor leaves \<open>m_queue\<close> empty and does not
  initialise \<open>m_timestamp\<close>, so a run starts at any time \<open>t0\<close>.
\<close>

datatype send_call = SAdd "32 word" v3s16 real real | SStep real

fun send_apply :: "(real \<Rightarrow> real) \<Rightarrow> BlockSendQueue \<Rightarrow> send_call \<Rightarrow> BlockSendQueue" where
  "send_apply to_float s (SAdd pid p pr timeout) = BlockSendQueue_addBlock to_float pid p pr timeout s"
| "send_apply to_float s (SStep dtime) = BlockSendQueue_step dtime s"

definition send_run :: "(real \<Rightarrow> real) \<Rightarrow> real \<Rightarrow> send_call list \<Rightarrow> BlockSendQueue" where
  "send_run to_float t0 cs = foldl (send_apply to_float) \<lparr>m_queue = [], m_timestamp = t0\<rparr> cs"

definition send_key :: "QueuedBlockSend \<Rightarrow> 32 word \<times> v3s16" where
  "send_key q = (peer_id q, pos q)"

text \<open>
  Modelled from the spec: \<open>BlockSendQueue::send\<close> is only declared in server.h; its body
  is not among the sources. The spec's drain step pops entries from the head of the
  queue, highest priority first, under a send budget; an entry whose deadline has elapsed
  when it is reached is dropped without being sent, any other entry reached is sent.
  \<open>send_drain now budget m\<close> returns the entries sent, in order, and the entries still
  queued when the budget is used up.
\<close>

fun send_drain :: "real \<Rightarrow> nat \<Rightarrow> QueuedBlockSend list
    \<Rightarrow> QueuedBlockSend list \<times> QueuedBlockSend list" where
  "send_drain now budget [] = ([], [])"
| "send_drain now 0 (q # qs) = ([], q # qs)"
| "send_drain now (Suc b) (q # qs) =
     (if timeout_timestamp q < now then send_drain now (Suc b) qs
      else (case send_drain now b qs of (sent, rest) \<Rightarrow> (q # sent, rest)))"

definition BlockSendQueue_send :: "nat \<Rightarrow> BlockSendQueue \<Rightarrow> QueuedBlockSend list \<times> BlockSendQueue" where
  "BlockSendQueue_send budget s =
     (case send_drain (m_timestamp s) budget (m_queue s) of
        (sent, rest) \<Rightarrow> (sent, s\<lparr>m_queue := rest\<rparr>))"

subsection \<open>Invariants of the two queues\<close>

definition emerge_inv :: "BlockEmergeQueue \<Rightarrow> bool" where
  "emerge_inv m \<longleftrightarrow>
     distinct (map emerge_pos m) \<and>
     sorted_wrt (\<lambda>a b. emerge_priority a \<ge> emerge_priority b) m"

definition send_inv :: "QueuedBlockSend list \<Rightarrow> bool" where
  "send_inv m \<longleftrightarrow>
     distinct (map send_key m) \<and>
     sorted_wrt (\<lambda>a b. priority a \<ge> priority b) m"

subsection \<open>RemoteClient\<close>

text \<open>
  The constructor. Two things it uses are declared outside server.h and are parameters
  here: the constant \<open>SER_FMT_VER_INVALID\<close> of serialization.h, and the value that the
  default constructor of \<open>v3s16\<close> gives \<open>m_last_center\<close>. The two \<open>core::map\<close> members
  are default-constructed, that is empty.
\<close>

record RemoteClient =
  peer_id :: "16 word"
  serialization_version :: "8 word"
  net_proto_version :: "16 word"
  pending_serialization_version :: "8 word"
  definitions_sent :: bool
  m_time_from_building :: real
  m_known_objects :: "16 word \<rightharpoonup> bool"
  m_blocks_sent :: "v3s16 \<rightharpoonup> bool"
  m_nearest_unsent_d :: "16 word"
  m_last_center :: v3s16
  m_nearest_unsent_reset_timer :: real
  m_nothing_to_send_counter :: "32 word"
  m_nothing_to_send_pause_timer :: real

definition RemoteClient_new :: "8 word \<Rightarrow> v3s16 \<Rightarrow> RemoteClient" where
  "RemoteClient_new SER_FMT_VER_INVALID v3s16_default =
     \<lparr>peer_id = 0,
      serialization_version = SER_FMT_VER_INVALID,
      net_proto_version = 0,
      pending_serialization_version = SER_FMT_VER_INVALID,
      definitions_sent = False,
      m_time_from_building = 9999,
      m_known_objects = Map.empty,
      m_blocks_sent = Map.empty,
      m_nearest_unsent_d = 0,
      m_last_center = v3s16_default,
      m_nearest_unsent_reset_timer = 0,
      m_nothing_to_send_counter = 0,
      m_nothing_to_send_pause_timer = 0\<rparr>"

subsection \<open>Concrete queues used in the examples\<close>

definition emerge_example :: BlockEmergeQueue where
  "emerge_example =
     [\<lparr>QueuedBlockEmerge.pos = P0, QueuedBlockEmerge.priority = 5\<rparr>,
      \<lparr>QueuedBlockEmerge.pos = P1, QueuedBlockEmerge.priority = 5\<rparr>,
      \<lparr>QueuedBlockEmerge.pos = P2, QueuedBlockEmerge.priority = 3\<rparr>]"

definition send_example :: BlockSendQueue where
  "send_example =
     \<lparr>m_queue =
        [\<lparr>QueuedBlockSend.peer_id = 1, pos = P0, priority = 5, timeout_timestamp = 10\<rparr>,
         \<lparr>QueuedBlockSend.peer_id = 1, pos = P1, priority = 3, timeout_timestamp = 10\<rparr>],
      m_timestamp = 0\<rparr>"

section \<open>Helper facts: the generation queue\<close>

lemma emerge_unqueue_set:
  "emerge_unqueue p pr m = Some m' \<Longrightarrow> set m' \<subseteq> set m"
  by (induction m arbitrary: m') (auto split: if_splits)

lemma emerge_unqueue_absent:
  "emerge_unqueue p pr m = Some m' \<Longrightarrow> distinct (map emerge_pos m) \<Longrightarrow>
     p \<notin> emerge_pos ` set m' \<and> distinct (map emerge_pos m')"
proof (induction m arbitrary: m')
  case Nil
  then show ?case by simp
next
  case (Cons q qs)
  show ?case
  proof (cases "emerge_pos q = p")
    case True
    with Cons.prems show ?thesis by (auto split: if_splits)
  next
    case False
    with Cons.prems obtain r where r: "emerge_unqueue p pr qs = Some r" and m': "m' = q # r"
      by auto
    from Cons.IH [OF r] Cons.prems(2)
    have "p \<notin> emerge_pos ` set r" and "distinct (map emerge_pos r)" by auto
    moreover from emerge_unqueue_set [OF r] Cons.prems(2)
    have "emerge_pos q \<notin> emerge_pos ` set r" by auto
    ultimately show ?thesis using False m' by auto
  qed
qed

lemma emerge_insert_set:
  "set (emerge_insert n m) \<subseteq> insert n (set m)"
  by (induction m) auto

lemma emerge_insert_distinct:
  "distinct (map emerge_pos m) \<Longrightarrow> emerge_pos n \<notin> emerge_pos ` set m \<Longrightarrow>
     distinct (map emerge_pos (emerge_insert n m))"
proof (induction m)
  case Nil
  then show ?case by simp
next
  case (Cons q qs)
  from emerge_insert_set [of n qs] Cons.prems
  have "emerge_pos q \<notin> emerge_pos ` set (emerge_insert n qs)" by auto
  with Cons show ?case by auto
qed

lemma emerge_addBlock_distinct:
  assumes "distinct (map emerge_pos m)"
  shows "distinct (map emerge_pos (BlockEmergeQueue_addBlock p pr m))"
proof (cases "emerge_unqueue p pr m")
  case None
  with assms show ?thesis by (simp add: BlockEmergeQueue_addBlock_def)
next
  case (Some m')
  from emerge_unqueue_absent [OF Some assms]
  have "p \<notin> emerge_pos ` set m'" and "distinct (map emerge_pos m')" by auto
  then have "distinct (map emerge_pos
      (emerge_insert \<lparr>QueuedBlockEmerge.pos = p, QueuedBlockEmerge.priority = pr\<rparr> m'))"
    by (intro emerge_insert_distinct) auto
  with Some show ?thesis by (simp add: BlockEmergeQueue_addBlock_def Let_def)
qed


text \<open>The order the member comment states: sorted by priority, highest first.\<close>

lemma emerge_unqueue_sorted:
  "emerge_unqueue p pr m = Some m' \<Longrightarrow>
     sorted_wrt (\<lambda>a b. emerge_priority a \<ge> emerge_priority b) m \<Longrightarrow>
     sorted_wrt (\<lambda>a b. emerge_priority a \<ge> emerge_priority b) m'"
proof (induction m arbitrary: m')
  case Nil
  then show ?case by simp
next
  case (Cons q qs)
  show ?case
  proof (cases "emerge_pos q = p")
    case True
    with Cons.prems show ?thesis by (auto split: if_splits)
  next
    case False
    with Cons.prems obtain r where r: "emerge_unqueue p pr qs = Some r" and m': "m' = q # r"
      by auto
    from Cons.IH [OF r] Cons.prems(2) emerge_unqueue_set [OF r] m'
    show ?thesis by auto
  qed
qed

lemma emerge_insert_sorted:
  "sorted_wrt (\<lambda>a b. emerge_priority a \<ge> emerge_priority b) m \<Longrightarrow>
     sorted_wrt (\<lambda>a b. emerge_priority a \<ge> emerge_priority b) (emerge_insert n m)"
proof (induction m)
  case Nil
  then show ?case by simp
next
  case (Cons q qs)
  show ?case
  proof (cases "emerge_priority q < emerge_priority n")
    case True
    with Cons.prems show ?thesis by fastforce
  next
    case False
    with Cons emerge_insert_set [of n qs] show ?thesis by auto
  qed
qed

lemma emerge_addBlock_sorted:
  assumes "sorted_wrt (\<lambda>a b. emerge_priority a \<ge> emerge_priority b) m"
  shows "sorted_wrt (\<lambda>a b. emerge_priority a \<ge> emerge_priority b)
           (BlockEmergeQueue_addBlock p pr m)"
proof (cases "emerge_unqueue p pr m")
  case None
  with assms show ?thesis by (simp add: BlockEmergeQueue_addBlock_def)
next
  case (Some m')
  from emerge_unqueue_sorted [OF Some assms] emerge_insert_sorted Some
  show ?thesis by (simp add: BlockEmergeQueue_addBlock_def Let_def)
qed

lemma emerge_apply_inv: "emerge_inv m \<Longrightarrow> emerge_inv (emerge_apply m c)"
proof (cases c)
  case (EAdd p pr)
  assume "emerge_inv m"
  with EAdd show ?thesis
    by (simp add: emerge_inv_def emerge_addBlock_distinct emerge_addBlock_sorted)
next
  case EPop
  assume "emerge_inv m"
  with EPop show ?thesis
    by (cases m) (simp_all add: emerge_inv_def BlockEmergeQueue_pop_def)
qed

lemma emerge_foldl_inv: "emerge_inv m \<Longrightarrow> emerge_inv (foldl emerge_apply m cs)"
  by (induction cs arbitrary: m) (simp_all add: emerge_apply_inv)

lemma emerge_run_inv: "emerge_inv (emerge_run cs)"
  unfolding emerge_run_def by (rule emerge_foldl_inv) (simp add: emerge_inv_def)

lemma emerge_pops_take: "emerge_pops n m = take n m"
  by (induction n arbitrary: m) (simp_all add: BlockEmergeQueue_pop_def split: list.splits)


section \<open>Helper facts: the send queue\<close>

lemma send_unqueue_set:
  "send_unqueue pid p pr ts m = Some m' \<Longrightarrow> set m' \<subseteq> set m"
  by (induction m arbitrary: m') (auto split: if_splits)

lemma send_unqueue_absent:
  "send_unqueue pid p pr ts m = Some m' \<Longrightarrow> distinct (map send_key m) \<Longrightarrow>
     (pid, p) \<notin> send_key ` set m' \<and> distinct (map send_key m')"
proof (induction m arbitrary: m')
  case Nil
  then show ?case by simp
next
  case (Cons q qs)
  show ?case
  proof (cases "send_key q = (pid, p)")
    case True
    with Cons.prems show ?thesis by (auto simp: send_key_def split: if_splits)
  next
    case False
    with Cons.prems obtain r where r: "send_unqueue pid p pr ts qs = Some r" and m': "m' = q # r"
      by (auto simp: send_key_def)
    from Cons.IH [OF r] Cons.prems(2)
    have "(pid, p) \<notin> send_key ` set r" and "distinct (map send_key r)" by auto
    moreover from send_unqueue_set [OF r] Cons.prems(2)
    have "send_key q \<notin> send_key ` set r" by auto
    ultimately show ?thesis using False m' by auto
  qed
qed

lemma send_unqueue_sorted:
  "send_unqueue pid p pr ts m = Some m' \<Longrightarrow>
     sorted_wrt (\<lambda>a b. priority a \<ge> priority b) m \<Longrightarrow>
     sorted_wrt (\<lambda>a b. priority a \<ge> priority b) m'"
proof (induction m arbitrary: m')
  case Nil
  then show ?case by simp
next
  case (Cons q qs)
  show ?case
  proof (cases "send_key q = (pid, p)")
    case True
    with Cons.prems show ?thesis by (auto simp: send_key_def split: if_splits)
  next
    case False
    with Cons.prems obtain r where r: "send_unqueue pid p pr ts qs = Some r" and m': "m' = q # r"
      by (auto simp: send_key_def)
    from Cons.IH [OF r] Cons.prems(2) send_unqueue_set [OF r] m'
    show ?thesis by auto
  qed
qed

lemma send_insert_set:
  "set (send_insert n m) \<subseteq> insert n (set m)"
  by (induction m) auto

lemma send_insert_distinct:
  "distinct (map send_key m) \<Longrightarrow> send_key n \<notin> send_key ` set m \<Longrightarrow>
     distinct (map send_key (send_insert n m))"
proof (induction m)
  case Nil
  then show ?case by simp
next
  case (Cons q qs)
  from send_insert_set [of n qs] Cons.prems
  have "send_key q \<notin> send_key ` set (send_insert n qs)" by auto
  with Cons show ?case by auto
qed

lemma send_insert_sorted:
  "sorted_wrt (\<lambda>a b. priority a \<ge> priority b) m \<Longrightarrow>
     sorted_wrt (\<lambda>a b. priority a \<ge> priority b) (send_insert n m)"
proof (induction m)
  case Nil
  then show ?case by simp
next
  case (Cons q qs)
  show ?case
  proof (cases "priority q < priority n")
    case True
    with Cons.prems show ?thesis by fastforce
  next
    case False
    with Cons send_insert_set [of n qs] show ?thesis by auto
  qed
qed

lemma send_addBlock_inv:
  assumes "send_inv (m_queue s)"
  shows "send_inv (m_queue (BlockSendQueue_addBlock to_float pid p pr timeout s))"
proof -
  define ts where "ts = to_float (m_timestamp s + timeout)"
  define newq where "newq = \<lparr>QueuedBlockSend.peer_id = pid, pos = p, priority = pr,
    timeout_timestamp = ts\<rparr>"
  show ?thesis
  proof (cases "send_unqueue pid p pr ts (m_queue s)")
    case None
    with assms show ?thesis by (simp add: BlockSendQueue_addBlock_def ts_def)
  next
    case (Some m')
    from assms have d: "distinct (map send_key (m_queue s))"
      and o: "sorted_wrt (\<lambda>a b. priority a \<ge> priority b) (m_queue s)"
      by (simp_all add: send_inv_def)
    from send_unqueue_absent [OF Some d]
    have "send_key newq \<notin> send_key ` set m'" and "distinct (map send_key m')"
      by (simp_all add: newq_def send_key_def)
    then have "distinct (map send_key (send_insert newq m'))"
      by (rule send_insert_distinct [rotated])
    moreover from send_unqueue_sorted [OF Some o]
    have "sorted_wrt (\<lambda>a b. priority a \<ge> priority b) (send_insert newq m')"
      by (rule send_insert_sorted)
    ultimately have "send_inv (send_insert newq m')" by (simp add: send_inv_def)
    moreover have "send_inv [newq]" by (simp add: send_inv_def)
    ultimately show ?thesis using Some
      by (simp add: BlockSendQueue_addBlock_def Let_def ts_def [symmetric] newq_def [symmetric])
  qed
qed

lemma send_apply_inv: "send_inv (m_queue s) \<Longrightarrow> send_inv (m_queue (send_apply to_float s c))"
  by (cases c) (simp_all add: send_addBlock_inv BlockSendQueue_step_def)

lemma send_foldl_inv:
  "send_inv (m_queue s) \<Longrightarrow> send_inv (m_queue (foldl (send_apply to_float) s cs))"
  by (induction cs arbitrary: s) (simp_all add: send_apply_inv)

lemma send_run_inv: "send_inv (m_queue (send_run to_float t0 cs))"
  unfolding send_run_def by (rule send_foldl_inv) (simp add: send_inv_def)


section \<open>Helper facts: what the two loops compute\<close>

lemma emerge_unqueue_first:
  "distinct (map emerge_pos m) \<Longrightarrow> q \<in> set m \<Longrightarrow>
     emerge_unqueue (emerge_pos q) pr m =
       (if emerge_priority q > pr then None else Some (remove1 q m))"
  by (induction m) (auto simp: image_iff)

lemma emerge_insert_eq:
  "emerge_insert n m =
     (if \<exists>x\<in>set m. emerge_priority x < emerge_priority n
      then takeWhile (\<lambda>x. emerge_priority n \<le> emerge_priority x) m @
           n # dropWhile (\<lambda>x. emerge_priority n \<le> emerge_priority x) m
      else m)"
  by (induction m) (auto simp: not_less)

lemma send_unqueue_first:
  "distinct (map send_key m) \<Longrightarrow> q \<in> set m \<Longrightarrow> send_key q = (pid, p) \<Longrightarrow>
     send_unqueue pid p pr ts m =
       (if priority q > pr \<and> timeout_timestamp q > ts then None else Some (remove1 q m))"
  by (induction m) (auto simp: image_iff send_key_def)

lemma send_insert_eq:
  "send_insert n m =
     (if \<exists>x\<in>set m. priority x < priority n
      then takeWhile (\<lambda>x. priority n \<le> priority x) m @
           n # dropWhile (\<lambda>x. priority n \<le> priority x) m
      else m)"
  by (induction m) (auto simp: not_less)

lemma send_drain_split:
  "send_drain now budget m = (sent, rest) \<Longrightarrow>
     \<exists>reached. m = reached @ rest \<and>
       sent = filter (\<lambda>q. \<not> timeout_timestamp q < now) reached"
proof (induction now budget m arbitrary: sent rest rule: send_drain.induct)
  case (1 now budget)
  then show ?case by simp
next
  case (2 now q qs)
  then show ?case by simp
next
  case (3 now b q qs)
  show ?case
  proof (cases "timeout_timestamp q < now")
    case True
    with "3.prems" have "send_drain now (Suc b) qs = (sent, rest)" by simp
    from "3.IH"(1) [OF True this] obtain reached
      where "qs = reached @ rest"
        and "sent = filter (\<lambda>q. \<not> timeout_timestamp q < now) reached" by blast
    with True have "q # qs = (q # reached) @ rest \<and>
        sent = filter (\<lambda>q. \<not> timeout_timestamp q < now) (q # reached)" by simp
    then show ?thesis by blast
  next
    case False
    obtain sent' rest' where d: "send_drain now b qs = (sent', rest')"
      by (cases "send_drain now b qs")
    with False "3.prems" have eq: "sent = q # sent'" "rest = rest'" by simp_all
    from "3.IH"(2) [OF False d] obtain reached
      where "qs = reached @ rest'"
        and "sent' = filter (\<lambda>q. \<not> timeout_timestamp q < now) reached" by blast
    with False eq have "q # qs = (q # reached) @ rest \<and>
        sent = filter (\<lambda>q. \<not> timeout_timestamp q < now) (q # reached)" by simp
    then show ?thesis by blast
  qed
qed

section \<open>The claims\<close>

lemma distinct_key_count:
  "distinct (map f xs) \<Longrightarrow> length (filter (\<lambda>x. f x = k) xs) \<le> 1"
proof (induction xs)
  case Nil
  then show ?case by simp
next
  case (Cons x xs)
  show ?case
  proof (cases "f x = k")
    case True
    with Cons.prems have "\<forall>y\<in>set xs. f y \<noteq> k"
      by (auto simp: image_iff)
    then have "filter (\<lambda>x. f x = k) xs = []"
      by (simp add: filter_empty_conv)
    with True show ?thesis by simp
  next
    case False
    with Cons show ?thesis by simp
  qed
qed

text \<open>
  C1: after every sequence of calls on a queue that starts empty (\<open>addBlock\<close>, and also
  \<open>pop\<close> on the generation queue and \<open>step\<close> on the send queue), the generation queue
  holds at most one entry for each position and the send queue at most one entry for
  each pair of peer and position. A run being any sequence, this holds after each call.
\<close>

theorem C1_one_entry_per_key:
  "length (filter (\<lambda>q. emerge_pos q = p) (emerge_run cs)) \<le> 1 \<and>
   distinct (map emerge_pos (emerge_run cs)) \<and>
   length (filter (\<lambda>q. send_key q = (pid, p)) (m_queue (send_run to_float t0 ss))) \<le> 1 \<and>
   distinct (map send_key (m_queue (send_run to_float t0 ss)))"
proof -
  have e: "distinct (map emerge_pos (emerge_run cs))"
    using emerge_run_inv [of cs] by (simp add: emerge_inv_def)
  have d: "distinct (map send_key (m_queue (send_run to_float t0 ss)))"
    using send_run_inv [of to_float t0 ss] by (simp add: send_inv_def)
  from e d distinct_key_count [OF e, of p] distinct_key_count [OF d, of "(pid, p)"]
  show ?thesis by simp
qed

text \<open>
  C3: on an empty generation queue, \<open>addBlock(P, p1)\<close> followed by \<open>addBlock(P, p2)\<close>
  with \<open>p2 < p1\<close>: the second call changes nothing, the size is 1, and \<open>pop\<close> returns
  the entry for \<open>P\<close> with priority \<open>p1\<close>.
\<close>

theorem C3_lower_priority_discarded:
  assumes "p2 < p1"
  shows "BlockEmergeQueue_addBlock P p2 (BlockEmergeQueue_addBlock P p1 [])
           = BlockEmergeQueue_addBlock P p1 [] \<and>
         BlockEmergeQueue_size (BlockEmergeQueue_addBlock P p2 (BlockEmergeQueue_addBlock P p1 [])) = 1 \<and>
         BlockEmergeQueue_pop (BlockEmergeQueue_addBlock P p2 (BlockEmergeQueue_addBlock P p1 []))
           = (Some \<lparr>QueuedBlockEmerge.pos = P, QueuedBlockEmerge.priority = p1\<rparr>, [])"
  using assms
  by (simp add: BlockEmergeQueue_addBlock_def BlockEmergeQueue_size_def BlockEmergeQueue_pop_def)

theorem C3_witness:
  "(2::real) < 5 \<and>
   BlockEmergeQueue_addBlock P0 2 (BlockEmergeQueue_addBlock P0 5 [])
     = BlockEmergeQueue_addBlock P0 5 [] \<and>
   BlockEmergeQueue_size (BlockEmergeQueue_addBlock P0 2 (BlockEmergeQueue_addBlock P0 5 [])) = 1 \<and>
   BlockEmergeQueue_pop (BlockEmergeQueue_addBlock P0 2 (BlockEmergeQueue_addBlock P0 5 []))
     = (Some \<lparr>QueuedBlockEmerge.pos = P0, QueuedBlockEmerge.priority = 5\<rparr>, [])"
proof -
  have h: "(2::real) < 5" by simp
  from h C3_lower_priority_discarded [OF h, of P0] show ?thesis by blast
qed

text \<open>
  C4: after every sequence of \<open>addBlock\<close> and \<open>pop\<close> calls on a generation queue that
  starts empty, the entries that any number of successive \<open>pop\<close> calls return have
  non-increasing priorities.
\<close>

theorem C4_pops_non_increasing:
  "sorted_wrt (\<lambda>a b. b \<le> a) (map emerge_priority (emerge_pops n (emerge_run cs)))"
proof -
  from emerge_run_inv [of cs]
  have "sorted_wrt (\<lambda>a b. emerge_priority b \<le> emerge_priority a) (emerge_run cs)"
    by (simp add: emerge_inv_def)
  then have "sorted_wrt (\<lambda>a b. emerge_priority b \<le> emerge_priority a) (take n (emerge_run cs))"
    by (rule sorted_wrt_take)
  then show ?thesis by (simp add: emerge_pops_take sorted_wrt_map)
qed

text \<open>
  C7: \<open>pop\<close> on a generation queue reached by any sequence of calls always returns (it
  is a total function of the queue). On the empty queue it returns \<open>NULL\<close> and leaves the
  queue as it is; otherwise it returns an entry of the queue that no entry exceeds in
  priority, removes that entry, and \<open>size()\<close> is one less.
\<close>

theorem C7_pop:
  "(emerge_run cs = [] \<longrightarrow>
      BlockEmergeQueue_pop (emerge_run cs) = (None, emerge_run cs)) \<and>
   (emerge_run cs \<noteq> [] \<longrightarrow>
      (\<exists>q rest. BlockEmergeQueue_pop (emerge_run cs) = (Some q, rest) \<and>
         q \<in> set (emerge_run cs) \<and>
         (\<forall>x \<in> set (emerge_run cs). emerge_priority x \<le> emerge_priority q) \<and>
         rest = remove1 q (emerge_run cs) \<and>
         BlockEmergeQueue_size rest = BlockEmergeQueue_size (emerge_run cs) - 1))"
proof (cases "emerge_run cs")
  case Nil
  then show ?thesis by (simp add: BlockEmergeQueue_pop_def)
next
  case (Cons q rest)
  from emerge_run_inv [of cs] Cons
  have "\<forall>x \<in> set (q # rest). emerge_priority x \<le> emerge_priority q"
    by (auto simp: emerge_inv_def)
  with Cons show ?thesis
    by (simp add: BlockEmergeQueue_pop_def BlockEmergeQueue_size_def)
qed

theorem C7_witness:
  "emerge_run [] = [] \<and>
   BlockEmergeQueue_pop (emerge_run []) = (None, []) \<and>
   emerge_run [EAdd P0 5, EAdd P1 7] \<noteq> [] \<and>
   BlockEmergeQueue_pop (emerge_run [EAdd P0 5, EAdd P1 7])
     = (Some \<lparr>QueuedBlockEmerge.pos = P1, QueuedBlockEmerge.priority = 7\<rparr>,
        [\<lparr>QueuedBlockEmerge.pos = P0, QueuedBlockEmerge.priority = 5\<rparr>])"
  using C7_pop [of "[]"] C7_pop [of "[EAdd P0 5, EAdd P1 7]"]
  by (simp add: emerge_run_def BlockEmergeQueue_addBlock_def BlockEmergeQueue_pop_def
      P0_def P1_def)


text \<open>
  C2 (the code at the failing inputs): a request for a position that is not queued is
  lost when the queue is not empty and holds no entry of strictly smaller priority, on
  both queues: the second loop runs to the end without a \<open>push_back\<close>, and \<open>size()\<close>
  stays as it was. In the same way a request that raises the priority of a queued
  position can erase the old entry and queue nothing.
\<close>

theorem C2_request_lost:
  "emerge_run [EAdd P0 5] = [\<lparr>QueuedBlockEmerge.pos = P0, QueuedBlockEmerge.priority = 5\<rparr>] \<and>
   emerge_run [EAdd P0 5, EAdd P1 3] = emerge_run [EAdd P0 5] \<and>
   BlockEmergeQueue_size (emerge_run [EAdd P0 5, EAdd P1 3]) = 1 \<and>
   emerge_run [EAdd P0 5, EAdd P1 6] =
     [\<lparr>QueuedBlockEmerge.pos = P1, QueuedBlockEmerge.priority = 6\<rparr>,
      \<lparr>QueuedBlockEmerge.pos = P0, QueuedBlockEmerge.priority = 5\<rparr>] \<and>
   emerge_run [EAdd P0 5, EAdd P1 6, EAdd P0 (11 / 2)] =
     [\<lparr>QueuedBlockEmerge.pos = P1, QueuedBlockEmerge.priority = 6\<rparr>] \<and>
   m_queue (send_run id 0 [SAdd 1 P0 5 10, SAdd 1 P1 3 10]) =
     [\<lparr>QueuedBlockSend.peer_id = 1, pos = P0, priority = 5, timeout_timestamp = 10\<rparr>] \<and>
   BlockSendQueue_size (send_run id 0 [SAdd 1 P0 5 10, SAdd 1 P1 3 10]) = 1"
  by (simp add: emerge_run_def send_run_def BlockEmergeQueue_addBlock_def
      BlockEmergeQueue_size_def BlockSendQueue_addBlock_def BlockSendQueue_size_def
      P0_def P1_def)

text \<open>
  C5, as the claim states it, fails: with positions \<open>P0\<close> and \<open>P1\<close> queued at priority 5
  and \<open>P2\<close> at priority 3 (a queue that three \<open>addBlock\<close> calls build), \<open>addBlock(P0, 5)\<close>
  is not a no-op: the entry for \<open>P0\<close> moves behind the entry for \<open>P1\<close>.
\<close>

theorem C5_counterexample:
  "emerge_run [EAdd P2 3, EAdd P0 5, EAdd P1 5] = emerge_example \<and>
   \<lparr>QueuedBlockEmerge.pos = P0, QueuedBlockEmerge.priority = 5\<rparr> \<in> set emerge_example \<and>
   BlockEmergeQueue_addBlock P0 5 emerge_example \<noteq> emerge_example \<and>
   BlockEmergeQueue_addBlock P0 5 emerge_example =
     [\<lparr>QueuedBlockEmerge.pos = P1, QueuedBlockEmerge.priority = 5\<rparr>,
      \<lparr>QueuedBlockEmerge.pos = P0, QueuedBlockEmerge.priority = 5\<rparr>,
      \<lparr>QueuedBlockEmerge.pos = P2, QueuedBlockEmerge.priority = 3\<rparr>]"
  by (simp add: emerge_run_def emerge_example_def BlockEmergeQueue_addBlock_def
      P0_def P1_def P2_def)

text \<open>
  C5 amended: on a generation queue with one entry per position, when \<open>addBlock\<close> is
  called for a position queued with exactly equal priority, the first loop does not
  return early but erases the existing entry. When nothing else is queued, the request
  is queued alone; when an entry of strictly smaller priority is queued, the request is
  queued right before the first such entry, behind every other entry whose priority is
  at least as large.
\<close>

theorem C5_equal_priority_requeued:
  assumes "emerge_inv m" and "q \<in> set m"
    and "emerge_pos q = p" and "emerge_priority q = pr"
  shows "emerge_unqueue p pr m = Some (remove1 q m) \<and>
    (remove1 q m = [] \<longrightarrow> BlockEmergeQueue_addBlock p pr m = [q]) \<and>
    ((\<exists>x\<in>set (remove1 q m). emerge_priority x < pr) \<longrightarrow>
       BlockEmergeQueue_addBlock p pr m =
         takeWhile (\<lambda>x. pr \<le> emerge_priority x) (remove1 q m) @
         q # dropWhile (\<lambda>x. pr \<le> emerge_priority x) (remove1 q m))"
proof -
  from assms(1) have d: "distinct (map emerge_pos m)" by (simp add: emerge_inv_def)
  from emerge_unqueue_first [OF d assms(2), of pr] assms(3,4)
  have u: "emerge_unqueue p pr m = Some (remove1 q m)" by simp
  have q: "\<lparr>QueuedBlockEmerge.pos = p, QueuedBlockEmerge.priority = pr\<rparr> = q"
    using assms(3,4) by simp
  show ?thesis
    using u q assms(4)
    by (auto simp: BlockEmergeQueue_addBlock_def Let_def emerge_insert_eq)
qed

theorem C5_witness:
  "emerge_inv emerge_example \<and>
   \<lparr>QueuedBlockEmerge.pos = P0, QueuedBlockEmerge.priority = 5\<rparr> \<in> set emerge_example \<and>
   (\<exists>x\<in>set (remove1 \<lparr>QueuedBlockEmerge.pos = P0, QueuedBlockEmerge.priority = 5\<rparr> emerge_example).
      emerge_priority x < 5) \<and>
   BlockEmergeQueue_addBlock P0 5 emerge_example =
     [\<lparr>QueuedBlockEmerge.pos = P1, QueuedBlockEmerge.priority = 5\<rparr>,
      \<lparr>QueuedBlockEmerge.pos = P0, QueuedBlockEmerge.priority = 5\<rparr>,
      \<lparr>QueuedBlockEmerge.pos = P2, QueuedBlockEmerge.priority = 3\<rparr>] \<and>
   emerge_inv [\<lparr>QueuedBlockEmerge.pos = P0, QueuedBlockEmerge.priority = 5\<rparr>] \<and>
   BlockEmergeQueue_addBlock P0 5 [\<lparr>QueuedBlockEmerge.pos = P0, QueuedBlockEmerge.priority = 5\<rparr>] =
     [\<lparr>QueuedBlockEmerge.pos = P0, QueuedBlockEmerge.priority = 5\<rparr>]"
proof -
  have i1: "emerge_inv [\<lparr>QueuedBlockEmerge.pos = P0, QueuedBlockEmerge.priority = 5\<rparr>]"
    by (simp add: emerge_inv_def)
  from C5_equal_priority_requeued [OF i1,
      where q = "\<lparr>QueuedBlockEmerge.pos = P0, QueuedBlockEmerge.priority = 5\<rparr>"
        and p = P0 and pr = 5]
  have s: "BlockEmergeQueue_addBlock P0 5
      [\<lparr>QueuedBlockEmerge.pos = P0, QueuedBlockEmerge.priority = 5\<rparr>] =
     [\<lparr>QueuedBlockEmerge.pos = P0, QueuedBlockEmerge.priority = 5\<rparr>]"
    by simp
  have i: "emerge_inv emerge_example"
    by (simp add: emerge_inv_def emerge_example_def P0_def P1_def P2_def)
  have m: "\<lparr>QueuedBlockEmerge.pos = P0, QueuedBlockEmerge.priority = 5\<rparr> \<in> set emerge_example"
    by (simp add: emerge_example_def)
  have l: "\<exists>x\<in>set (remove1 \<lparr>QueuedBlockEmerge.pos = P0, QueuedBlockEmerge.priority = 5\<rparr>
      emerge_example). emerge_priority x < 5"
    by (simp add: emerge_example_def)
  from C5_equal_priority_requeued [OF i m, of P0 5] l
  have "BlockEmergeQueue_addBlock P0 5 emerge_example =
      takeWhile (\<lambda>x. 5 \<le> emerge_priority x)
        (remove1 \<lparr>QueuedBlockEmerge.pos = P0, QueuedBlockEmerge.priority = 5\<rparr> emerge_example) @
      \<lparr>QueuedBlockEmerge.pos = P0, QueuedBlockEmerge.priority = 5\<rparr> #
      dropWhile (\<lambda>x. 5 \<le> emerge_priority x)
        (remove1 \<lparr>QueuedBlockEmerge.pos = P0, QueuedBlockEmerge.priority = 5\<rparr> emerge_example)"
    by simp
  also have "\<dots> = [\<lparr>QueuedBlockEmerge.pos = P1, QueuedBlockEmerge.priority = 5\<rparr>,
      \<lparr>QueuedBlockEmerge.pos = P0, QueuedBlockEmerge.priority = 5\<rparr>,
      \<lparr>QueuedBlockEmerge.pos = P2, QueuedBlockEmerge.priority = 3\<rparr>]"
    by (simp add: emerge_example_def P0_def P1_def)
  finally show ?thesis using i m l i1 s by simp
qed


text \<open>
  C6, as the claim states it, fails: peer 1 has position \<open>P0\<close> queued with priority 5 and
  deadline 10. A request for the same key with priority 5 and timeout 3 at time 0 finds
  the queued entry no worse in priority and in deadline, yet the call is not a no-op:
  the entry is replaced and its deadline drops to 3.
\<close>

theorem C6_counterexample:
  "m_queue send_example =
     [\<lparr>QueuedBlockSend.peer_id = 1, pos = P0, priority = 5, timeout_timestamp = 10\<rparr>,
      \<lparr>QueuedBlockSend.peer_id = 1, pos = P1, priority = 3, timeout_timestamp = 10\<rparr>] \<and>
   BlockSendQueue_addBlock id 1 P0 5 3 send_example \<noteq> send_example \<and>
   m_queue (BlockSendQueue_addBlock id 1 P0 5 3 send_example) =
     [\<lparr>QueuedBlockSend.peer_id = 1, pos = P0, priority = 5, timeout_timestamp = 3\<rparr>,
      \<lparr>QueuedBlockSend.peer_id = 1, pos = P1, priority = 3, timeout_timestamp = 10\<rparr>]"
proof -
  have q: "m_queue (BlockSendQueue_addBlock id 1 P0 5 3 send_example) =
     [\<lparr>QueuedBlockSend.peer_id = 1, pos = P0, priority = 5, timeout_timestamp = 3\<rparr>,
      \<lparr>QueuedBlockSend.peer_id = 1, pos = P1, priority = 3, timeout_timestamp = 10\<rparr>]"
    by (simp add: send_example_def BlockSendQueue_addBlock_def P0_def P1_def)
  have "m_queue (BlockSendQueue_addBlock id 1 P0 5 3 send_example) \<noteq> m_queue send_example"
    unfolding q by (simp add: send_example_def)
  then have "BlockSendQueue_addBlock id 1 P0 5 3 send_example \<noteq> send_example"
    by auto
  with q show ?thesis by (simp add: send_example_def)
qed

text \<open>
  C6 amended: on a send queue with one entry per key, for a key \<open>(peer_id, position)\<close>
  that is queued, \<open>addBlock\<close> returns early, leaving the queue as it is, exactly when
  the queued entry's priority and deadline are both strictly greater than the incoming
  ones. In every other case the old entry is erased; the incoming entry is then queued
  alone when nothing else is queued, and right before the first entry of strictly
  smaller priority when there is one. The deadline of the incoming entry is the queue's
  time plus the timeout, narrowed to \<open>float\<close>.
\<close>

theorem C6_replace_unless_strictly_better:
  assumes "send_inv (m_queue s)" and "q \<in> set (m_queue s)" and "send_key q = (pid, p)"
  shows "let ts = to_float (m_timestamp s + timeout);
             newq = \<lparr>QueuedBlockSend.peer_id = pid, pos = p, priority = pr, timeout_timestamp = ts\<rparr>;
             rest = remove1 q (m_queue s);
             s' = BlockSendQueue_addBlock to_float pid p pr timeout s
         in ((send_unqueue pid p pr ts (m_queue s) = None) =
               (priority q > pr \<and> timeout_timestamp q > ts)) \<and>
            (priority q > pr \<and> timeout_timestamp q > ts \<longrightarrow> s' = s) \<and>
            (\<not> (priority q > pr \<and> timeout_timestamp q > ts) \<longrightarrow>
               send_unqueue pid p pr ts (m_queue s) = Some rest \<and>
               (rest = [] \<longrightarrow> s' = s\<lparr>m_queue := [newq]\<rparr>) \<and>
               ((\<exists>x\<in>set rest. priority x < pr) \<longrightarrow>
                  s' = s\<lparr>m_queue := takeWhile (\<lambda>x. pr \<le> priority x) rest @
                                      newq # dropWhile (\<lambda>x. pr \<le> priority x) rest\<rparr>))"
proof -
  from assms(1) have d: "distinct (map send_key (m_queue s))" by (simp add: send_inv_def)
  note u = send_unqueue_first [OF d assms(2,3), of pr "to_float (m_timestamp s + timeout)"]
  show ?thesis
    unfolding Let_def
    by (cases "priority q > pr \<and> timeout_timestamp q > to_float (m_timestamp s + timeout)")
      (auto simp: u BlockSendQueue_addBlock_def Let_def send_insert_eq)
qed

theorem C6_witness:
  "send_inv (m_queue send_example) \<and>
   \<lparr>QueuedBlockSend.peer_id = 1, pos = P0, priority = 5, timeout_timestamp = 10\<rparr>
     \<in> set (m_queue send_example) \<and>
   BlockSendQueue_addBlock id 1 P0 4 2 send_example = send_example \<and>
   send_unqueue 1 P0 5 3 (m_queue send_example) =
     Some [\<lparr>QueuedBlockSend.peer_id = 1, pos = P1, priority = 3, timeout_timestamp = 10\<rparr>] \<and>
   BlockSendQueue_addBlock id 1 P0 5 3 send_example =
     send_example\<lparr>m_queue :=
       [\<lparr>QueuedBlockSend.peer_id = 1, pos = P0, priority = 5, timeout_timestamp = 3\<rparr>,
        \<lparr>QueuedBlockSend.peer_id = 1, pos = P1, priority = 3, timeout_timestamp = 10\<rparr>]\<rparr> \<and>
   BlockSendQueue_addBlock id 1 P0 5 3
       \<lparr>m_queue = [\<lparr>QueuedBlockSend.peer_id = 1, pos = P0, priority = 5, timeout_timestamp = 10\<rparr>],
        m_timestamp = 0\<rparr> =
     \<lparr>m_queue = [\<lparr>QueuedBlockSend.peer_id = 1, pos = P0, priority = 5, timeout_timestamp = 3\<rparr>],
      m_timestamp = 0\<rparr>"
proof -
  let ?q = "\<lparr>QueuedBlockSend.peer_id = 1, pos = P0, priority = 5, timeout_timestamp = 10\<rparr>"
  let ?s1 = "\<lparr>m_queue = [?q], m_timestamp = 0\<rparr>"
  have i1: "send_inv (m_queue ?s1)"
    by (simp add: send_inv_def)
  have m1: "?q \<in> set (m_queue ?s1)"
    by simp
  have k1: "send_key ?q = (1, P0)"
    by (simp add: send_key_def)
  from C6_replace_unless_strictly_better [OF i1 m1 k1, where pr = 5 and to_float = id and timeout = 3]
  have c: "BlockSendQueue_addBlock id 1 P0 5 3 ?s1 =
      \<lparr>m_queue = [\<lparr>QueuedBlockSend.peer_id = 1, pos = P0, priority = 5, timeout_timestamp = 3\<rparr>],
       m_timestamp = 0\<rparr>"
    by (simp add: Let_def)
  have i: "send_inv (m_queue send_example)"
    by (simp add: send_inv_def send_example_def send_key_def P0_def P1_def)
  have m: "?q \<in> set (m_queue send_example)"
    by (simp add: send_example_def)
  have k: "send_key ?q = (1, P0)"
    by (simp add: send_key_def)
  have r: "remove1 ?q (m_queue send_example) =
      [\<lparr>QueuedBlockSend.peer_id = 1, pos = P1, priority = 3, timeout_timestamp = 10\<rparr>]"
    by (simp add: send_example_def)
  have t: "m_timestamp send_example = 0"
    by (simp add: send_example_def)
  from C6_replace_unless_strictly_better [OF i m k, where pr = 4 and to_float = id and timeout = 2]
  have a: "BlockSendQueue_addBlock id 1 P0 4 2 send_example = send_example"
    by (simp add: Let_def t)
  from C6_replace_unless_strictly_better [OF i m k, where pr = 5 and to_float = id and timeout = 3]
  have b: "send_unqueue 1 P0 5 3 (m_queue send_example) =
      Some [\<lparr>QueuedBlockSend.peer_id = 1, pos = P1, priority = 3, timeout_timestamp = 10\<rparr>] \<and>
    BlockSendQueue_addBlock id 1 P0 5 3 send_example =
      send_example\<lparr>m_queue :=
        [\<lparr>QueuedBlockSend.peer_id = 1, pos = P0, priority = 5, timeout_timestamp = 3\<rparr>,
         \<lparr>QueuedBlockSend.peer_id = 1, pos = P1, priority = 3, timeout_timestamp = 10\<rparr>]\<rparr>"
    by (simp add: Let_def t r)
  from i m a b c show ?thesis by simp
qed

text \<open>
  C8 (on the drain step modelled from the spec): \<open>send\<close> splits the queue into the
  entries it reached and the entries it leaves queued; what it sends is exactly the
  reached entries whose deadline is not earlier than the queue's time. So no entry that
  is sent has a deadline earlier than the queue's time, and a reached entry whose
  deadline has elapsed is neither sent nor kept.
\<close>

theorem C8_elapsed_never_sent:
  assumes "BlockSendQueue_send budget s = (sent, s')"
  shows "(\<exists>reached. m_queue s = reached @ m_queue s' \<and>
            sent = filter (\<lambda>q. \<not> timeout_timestamp q < m_timestamp s) reached) \<and>
         (\<forall>q\<in>set sent. \<not> timeout_timestamp q < m_timestamp s) \<and>
         m_timestamp s' = m_timestamp s"
proof -
  obtain sent0 rest where d: "send_drain (m_timestamp s) budget (m_queue s) = (sent0, rest)"
    by (cases "send_drain (m_timestamp s) budget (m_queue s)")
  with assms have eq: "sent = sent0" "s' = s\<lparr>m_queue := rest\<rparr>"
    by (simp_all add: BlockSendQueue_send_def)
  from send_drain_split [OF d] obtain reached where
    r: "m_queue s = reached @ rest"
      "sent0 = filter (\<lambda>q. \<not> timeout_timestamp q < m_timestamp s) reached" by blast
  from r eq have "m_queue s = reached @ m_queue s' \<and>
      sent = filter (\<lambda>q. \<not> timeout_timestamp q < m_timestamp s) reached" by simp
  moreover from r eq have "\<forall>q\<in>set sent. \<not> timeout_timestamp q < m_timestamp s" by simp
  moreover from eq have "m_timestamp s' = m_timestamp s" by simp
  ultimately show ?thesis by blast
qed

theorem C8_witness:
  "BlockSendQueue_send 1 (BlockSendQueue_step 12 (BlockSendQueue_addBlock id 2 P2 4 20 send_example)) =
     ([\<lparr>QueuedBlockSend.peer_id = 2, pos = P2, priority = 4, timeout_timestamp = 20\<rparr>],
      \<lparr>m_queue = [\<lparr>QueuedBlockSend.peer_id = 1, pos = P1, priority = 3, timeout_timestamp = 10\<rparr>],
        m_timestamp = 12\<rparr>) \<and>
   \<not> timeout_timestamp
       \<lparr>QueuedBlockSend.peer_id = 2, pos = P2, priority = 4, timeout_timestamp = 20\<rparr> < 12"
proof -
  have e: "BlockSendQueue_send 1
      (BlockSendQueue_step 12 (BlockSendQueue_addBlock id 2 P2 4 20 send_example)) =
     ([\<lparr>QueuedBlockSend.peer_id = 2, pos = P2, priority = 4, timeout_timestamp = 20\<rparr>],
      \<lparr>m_queue = [\<lparr>QueuedBlockSend.peer_id = 1, pos = P1, priority = 3, timeout_timestamp = 10\<rparr>],
        m_timestamp = 12\<rparr>)"
    by (simp add: BlockSendQueue_send_def BlockSendQueue_step_def BlockSendQueue_addBlock_def
        send_example_def P0_def P1_def P2_def)
  have t: "m_timestamp (BlockSendQueue_step 12 (BlockSendQueue_addBlock id 2 P2 4 20 send_example)) = 12"
    by (simp add: BlockSendQueue_step_def BlockSendQueue_addBlock_def send_example_def
        P0_def P1_def P2_def)
  from C8_elapsed_never_sent [OF e] e show ?thesis
    unfolding t by simp
qed

text \<open>
  C10: a freshly constructed \<open>RemoteClient\<close> has no block marked as sent and no known
  object, peer id 0, both serialization versions equal to \<open>SER_FMT_VER_INVALID\<close>, and its
  nearest-unsent distance at 0.
\<close>

theorem C10_fresh_client:
  "m_blocks_sent (RemoteClient_new SER_FMT_VER_INVALID c) = Map.empty \<and>
   (\<forall>p. m_blocks_sent (RemoteClient_new SER_FMT_VER_INVALID c) p = None) \<and>
   m_known_objects (RemoteClient_new SER_FMT_VER_INVALID c) = Map.empty \<and>
   (\<forall>i. m_known_objects (RemoteClient_new SER_FMT_VER_INVALID c) i = None) \<and>
   RemoteClient.peer_id (RemoteClient_new SER_FMT_VER_INVALID c) = 0 \<and>
   serialization_version (RemoteClient_new SER_FMT_VER_INVALID c) = SER_FMT_VER_INVALID \<and>
   pending_serialization_version (RemoteClient_new SER_FMT_VER_INVALID c) = SER_FMT_VER_INVALID \<and>
   m_nearest_unsent_d (RemoteClient_new SER_FMT_VER_INVALID c) = 0"
  by (simp add: RemoteClient_new_def)

end
